theory Spec2Isabelle
  imports Complex_Main "HOL-Library.FSet" "HOL-Library.Stream"
begin

section \<open>Core game primitives (game.ts)\<close>

text \<open>
  A \<open>Point\<close> is the pair \<open>[row, col]\<close>; the coordinates are the integers the game
  computes with. A \<open>Direction\<close> is one of the four string literals of the source.
\<close>

type_synonym Point = "int \<times> int"

datatype Direction = RIGHT | LEFT | UP | DOWN

definition CLASSIC_GRID :: int where
  "CLASSIC_GRID = 10"

definition LARGE_GRID :: int where
  "LARGE_GRID = 20"

text \<open>
  The exceptions of the source: reading \<open>head[0]\<close> of an empty snake is a
  \<open>TypeError\<close>; \<open>randPointExcluding\<close> throws
  \<open>Error('No available points to place food')\<close>.
\<close>

datatype error = TypeError | NoAvailablePoints

subsection \<open>keyOf\<close>

text \<open>
  The template literal \<open>`${p[0]},${p[1]}`\<close> prints each coordinate in decimal,
  with a leading minus sign for a negative one, and puts a comma between them.
  (JavaScript prints an integer in plain decimal digits below \<open>10^21\<close>; the
  coordinates of a game are far smaller.)
\<close>

definition digitChar :: "nat \<Rightarrow> char" where
  "digitChar d = ''0123456789'' ! d"

fun digitsOf :: "nat \<Rightarrow> string" where
  "digitsOf n =
     (if n < 10 then [digitChar n] else digitsOf (n div 10) @ [digitChar (n mod 10)])"

declare digitsOf.simps [simp del]

definition numToString :: "int \<Rightarrow> string" where
  "numToString n = (if n < 0 then CHR ''-'' # digitsOf (nat (- n)) else digitsOf (nat n))"

definition keyOf :: "Point \<Rightarrow> string" where
  "keyOf p = numToString (fst p) @ '','' @ numToString (snd p)"

subsection \<open>randPointExcluding\<close>

text \<open>
  \<open>Math.random()\<close> is the only effect of the function. The random source is a stream
  of the numbers it will return, each in \<open>[0, 1)\<close>; a call reads the head of the
  stream and leaves the rest. \<open>Math.floor(Math.random() * gridSize)\<close> is computed
  on the reals. A \<open>Set<string>\<close> is a finite set of strings, its \<open>size\<close> the
  cardinality.

  The \<open>while (true)\<close> loop has no bound, so it is a partial function: \<open>None\<close> is
  the run that never returns. A result carries the rest of the random source, so that
  a run's draws can be counted.
\<close>

definition nextRandom :: "real stream \<Rightarrow> real \<times> real stream" where
  "nextRandom rnd = (shd rnd, stl rnd)"

definition drawPoint :: "int \<Rightarrow> real stream \<Rightarrow> Point \<times> real stream" where
  "drawPoint gridSize rnd =
     (let (x, rnd1) = nextRandom rnd;
          (y, rnd2) = nextRandom rnd1
      in ((\<lfloor>x * of_int gridSize\<rfloor>, \<lfloor>y * of_int gridSize\<rfloor>), rnd2))"

partial_function (option) drawLoop ::
  "string fset \<Rightarrow> int \<Rightarrow> real stream \<Rightarrow> (Point \<times> real stream) option" where
  "drawLoop exclude gridSize rnd =
     (let (p, rnd') = drawPoint gridSize rnd;
          k = keyOf p
      in if k |\<notin>| exclude then Some (p, rnd') else drawLoop exclude gridSize rnd')"

definition randPointExcluding ::
  "string fset \<Rightarrow> int \<Rightarrow> real stream \<Rightarrow> ((error + Point) \<times> real stream) option" where
  "randPointExcluding exclude gridSize rnd =
     (let maxCells = gridSize * gridSize
      in if int (fcard exclude) \<ge> maxCells then Some (Inl NoAvailablePoints, rnd)
         else map_option (\<lambda>(p, rnd'). (Inr p, rnd')) (drawLoop exclude gridSize rnd))"

subsection \<open>stepSnake\<close>

text \<open>
  The candidate head (the \<open>if\<close> chain on \<open>dir\<close>) and the wrap around the borders
  are the first two blocks of \<open>stepSnake\<close>; they are named here so that the theorems
  can speak about the wrapped candidate head.
\<close>

definition moveHead :: "Point \<Rightarrow> Direction \<Rightarrow> Point" where
  "moveHead head dir =
     (if dir = RIGHT then (fst head, snd head + 1)
      else if dir = LEFT then (fst head, snd head - 1)
      else if dir = UP then (fst head - 1, snd head)
      else (fst head + 1, snd head))"

definition wrapAround :: "Point \<Rightarrow> int \<Rightarrow> Point" where
  "wrapAround newHead gridSize =
     (let r = (if fst newHead < 0 then gridSize - 1
               else if fst newHead \<ge> gridSize then 0
               else fst newHead);
          c = (if snd newHead < 0 then gridSize - 1
               else if snd newHead \<ge> gridSize then 0
               else snd newHead)
      in (r, c))"

definition nextHead :: "Point \<Rightarrow> Direction \<Rightarrow> int \<Rightarrow> Point" where
  "nextHead head dir gridSize = wrapAround (moveHead head dir) gridSize"

record StepResult =
  snake :: "Point list"
  ate :: bool
  collision :: bool

definition stepSnake :: "Point list \<Rightarrow> Direction \<Rightarrow> Point \<Rightarrow> int \<Rightarrow> error + StepResult" where
  "stepSnake prev dir food gridSize =
     (case prev of
        [] \<Rightarrow> Inl TypeError
      | head # _ \<Rightarrow>
          (let newHead = nextHead head dir gridSize;
               occupied = fset_of_list (map keyOf prev);
               tail = last prev;
               willEat = (fst newHead = fst food \<and> snd newHead = snd food);
               tailKey = keyOf tail;
               newHeadKey = keyOf newHead;
               hitSelf = (newHeadKey |\<in>| occupied \<and> \<not> (newHeadKey = tailKey \<and> \<not> willEat))
           in if hitSelf then Inr \<lparr>snake = prev, ate = False, collision = True\<rparr>
              else (let newSnake = newHead # prev;
                        newSnake = (if \<not> willEat then butlast newSnake else newSnake)
                    in Inr \<lparr>snake = newSnake, ate = willEat, collision = False\<rparr>)))"

section \<open>The game loop driver (SnakeGame.tsx)\<close>

text \<open>
  The component's state hooks and refs that the simulation reads or writes are the
  fields of one record. The fields \<open>snake_st\<close> and \<open>food_st\<close> are the state
  variables \<open>snake\<close> and \<open>food\<close>. The tick interval is a JavaScript number;
  it is a real here, and \<open>msPerTickRef.current * 0.95\<close> is the exact product.
\<close>

datatype SpeedLabel = slow | normal | fast

fun SPEED_LEVELS :: "SpeedLabel \<Rightarrow> real" where
  "SPEED_LEVELS slow = 300"
| "SPEED_LEVELS normal = 200"
| "SPEED_LEVELS fast = 120"

datatype BoardPreset = classic | large

record BoardConfig =
  grid :: int
  cellSize :: int

fun BOARD_PRESETS :: "BoardPreset \<Rightarrow> BoardConfig" where
  "BOARD_PRESETS classic = \<lparr>grid = CLASSIC_GRID, cellSize = 60\<rparr>"
| "BOARD_PRESETS large = \<lparr>grid = LARGE_GRID, cellSize = 50\<rparr>"

definition INITIAL_SNAKE :: "Point list" where
  "INITIAL_SNAKE = [(0, 2), (0, 1), (0, 0)]"

record GameState =
  boardPreset :: BoardPreset
  snake_st :: "Point list"
  food_st :: Point
  gameOver :: bool
  score :: int
  speedLabel :: SpeedLabel
  directionRef :: Direction
  running :: bool
  msPerTickRef :: real

definition gridSizeOf :: "GameState \<Rightarrow> int" where
  "gridSizeOf st = grid (BOARD_PRESETS (boardPreset st))"

text \<open>
  Selecting a difficulty calls \<open>setSpeedLabel\<close>; the effect that depends on
  \<open>speedLabel\<close> then stores the preset's interval. The effect runs only when the
  label changes.
\<close>

definition setSpeedLabel :: "SpeedLabel \<Rightarrow> GameState \<Rightarrow> GameState" where
  "setSpeedLabel l st =
     (if l = speedLabel st then st
      else st\<lparr>speedLabel := l, msPerTickRef := SPEED_LEVELS l\<rparr>)"

text \<open>
  One game tick is the updater passed to \<open>setSnake\<close> in \<open>loop\<close>, with the state
  writes it makes; it runs once per tick and reads the current snake, direction and
  food. An exception of \<open>stepSnake\<close> or \<open>randPointExcluding\<close> leaves the updater
  at once, before the writes that follow it.
\<close>

definition gameTick ::
  "GameState \<Rightarrow> real stream \<Rightarrow> ((error + GameState) \<times> real stream) option" where
  "gameTick st rnd =
     (case stepSnake (snake_st st) (directionRef st) (food_st st) (gridSizeOf st) of
        Inl e \<Rightarrow> Some (Inl e, rnd)
      | Inr res \<Rightarrow>
          if collision res then Some (Inr (st\<lparr>gameOver := True\<rparr>), rnd)
          else if ate res then
            (let sset = fset_of_list (map keyOf (snake res))
             in case randPointExcluding sset (gridSizeOf st) rnd of
                  None \<Rightarrow> None
                | Some (Inl e, rnd') \<Rightarrow> Some (Inl e, rnd')
                | Some (Inr f, rnd') \<Rightarrow>
                    Some (Inr (st\<lparr>score := score st + 1,
                                   food_st := f,
                                   msPerTickRef := max 40 (msPerTickRef st * 0.95),
                                   snake_st := snake res\<rparr>), rnd'))
          else Some (Inr (st\<lparr>snake_st := snake res\<rparr>), rnd))"

definition reset ::
  "GameState \<Rightarrow> real stream \<Rightarrow> ((error + GameState) \<times> real stream) option" where
  "reset st rnd =
     (let initial = INITIAL_SNAKE;
          s = fset_of_list (map keyOf initial)
      in case randPointExcluding s (gridSizeOf st) rnd of
           None \<Rightarrow> None
         | Some (Inl e, rnd') \<Rightarrow> Some (Inl e, rnd')
         | Some (Inr f, rnd') \<Rightarrow>
             Some (Inr (st\<lparr>directionRef := RIGHT,
                            snake_st := initial,
                            gameOver := False,
                            score := 0,
                            msPerTickRef := SPEED_LEVELS normal,
                            food_st := f\<rparr>), rnd'))"

section \<open>Notions used by the properties\<close>

text \<open>A cell of the grid: both coordinates in \<open>[0, gridSize)\<close>.\<close>

definition inGrid :: "int \<Rightarrow> Point \<Rightarrow> bool" where
  "inGrid gridSize p \<longleftrightarrow> 0 \<le> fst p \<and> fst p < gridSize \<and> 0 \<le> snd p \<and> snd p < gridSize"

text \<open>A run of \<open>n\<close> ticks, one after the other; it stops at the first exception.\<close>

fun runTicks ::
  "nat \<Rightarrow> GameState \<Rightarrow> real stream \<Rightarrow> ((error + GameState) \<times> real stream) option" where
  "runTicks 0 st rnd = Some (Inr st, rnd)"
| "runTicks (Suc n) st rnd =
     (case gameTick st rnd of
        None \<Rightarrow> None
      | Some (Inl e, rnd') \<Rightarrow> Some (Inl e, rnd')
      | Some (Inr st', rnd') \<Rightarrow> runTicks n st' rnd')"

section \<open>keyOf is injective\<close>

text \<open>
  A decimal numeral determines its number, a minus sign is no digit and a comma is
  neither, so two points with the same key are the same point. This makes the key
  comparisons of \<open>stepSnake\<close> comparisons of cells.
\<close>

lemma digitChar_inject:
  assumes "a < 10" "b < 10" "digitChar a = digitChar b"
  shows "a = b"
proof -
  have d: "distinct ''0123456789''" by simp
  have "a < length ''0123456789''" "b < length ''0123456789''"
    using assms by simp_all
  with d assms(3) show ?thesis
    unfolding digitChar_def by (simp only: nth_eq_iff_index_eq)
qed

lemma digitChar_in_digits: "d < 10 \<Longrightarrow> digitChar d \<in> set ''0123456789''"
  unfolding digitChar_def by (rule nth_mem) simp

lemma digitsOf_not_Nil: "digitsOf n \<noteq> []"
  by (subst digitsOf.simps) simp

lemma set_digitsOf: "set (digitsOf n) \<subseteq> set ''0123456789''"
proof (induction n rule: digitsOf.induct)
  case (1 n)
  show ?case
  proof (cases "n < 10")
    case True
    then show ?thesis
      using digitChar_in_digits [of n] by (subst digitsOf.simps) simp
  next
    case False
    have "n mod 10 < 10" by simp
    then have "digitChar (n mod 10) \<in> set ''0123456789''"
      by (rule digitChar_in_digits)
    with False 1 show ?thesis
      by (subst digitsOf.simps) simp
  qed
qed

lemma digitsOf_inject: "digitsOf n = digitsOf m \<Longrightarrow> n = m"
proof (induction n arbitrary: m rule: digitsOf.induct)
  case (1 n)
  show ?case
  proof (cases "n < 10")
    case n: True
    show ?thesis
    proof (cases "m < 10")
      case True
      with n 1(2) show ?thesis
        by (simp add: digitsOf.simps [of n] digitsOf.simps [of m] digitChar_inject)
    next
      case False
      with n 1(2) digitsOf_not_Nil [of "m div 10"] show ?thesis
        by (simp add: digitsOf.simps [of n] digitsOf.simps [of m] Cons_eq_append_conv)
    qed
  next
    case n: False
    show ?thesis
    proof (cases "m < 10")
      case True
      with n 1(2) digitsOf_not_Nil [of "n div 10"] show ?thesis
        by (simp add: digitsOf.simps [of n] digitsOf.simps [of m] append_eq_Cons_conv)
    next
      case False
      with n 1(2) have eq: "digitsOf (n div 10) = digitsOf (m div 10)"
        and dc: "digitChar (n mod 10) = digitChar (m mod 10)"
        by (simp_all add: digitsOf.simps [of n] digitsOf.simps [of m])
      from 1(1) [OF n eq] have "n div 10 = m div 10" .
      moreover from dc have "n mod 10 = m mod 10"
        by (intro digitChar_inject) simp_all
      ultimately show ?thesis
        by (metis div_mult_mod_eq)
    qed
  qed
qed

lemma minus_notin_digitsOf: "CHR ''-'' \<notin> set (digitsOf n)"
  using set_digitsOf [of n] by auto

lemma comma_notin_digitsOf: "CHR '','' \<notin> set (digitsOf n)"
  using set_digitsOf [of n] by auto

lemma numToString_inject: "numToString a = numToString b \<Longrightarrow> a = b"
proof -
  assume eq: "numToString a = numToString b"
  have ne: "digitsOf k \<noteq> CHR ''-'' # digitsOf l" for k l
    using minus_notin_digitsOf [of k] by (metis list.set_intros(1))
  show ?thesis
  proof (cases "a < 0")
    case a: True
    show ?thesis
    proof (cases "b < 0")
      case True
      with a eq have "nat (- a) = nat (- b)"
        by (simp add: numToString_def digitsOf_inject)
      with a True show ?thesis by simp
    next
      case False
      with a eq ne show ?thesis by (simp add: numToString_def) metis
    qed
  next
    case a: False
    show ?thesis
    proof (cases "b < 0")
      case True
      with a eq ne show ?thesis by (simp add: numToString_def)
    next
      case False
      with a eq have "nat a = nat b"
        by (simp add: numToString_def digitsOf_inject)
      with a False show ?thesis by simp
    qed
  qed
qed

lemma comma_notin_numToString: "CHR '','' \<notin> set (numToString n)"
  using comma_notin_digitsOf by (simp add: numToString_def)

lemma keyOf_inject: "keyOf p = keyOf q \<longleftrightarrow> p = q"
proof
  assume "keyOf p = keyOf q"
  then have "numToString (fst p) = numToString (fst q) \<and> numToString (snd p) = numToString (snd q)"
    unfolding keyOf_def
    using append_Cons_eq_iff [OF comma_notin_numToString comma_notin_numToString]
    by simp
  then show "p = q"
    by (metis numToString_inject prod.expand)
qed simp

lemma occupied_has: "keyOf p |\<in>| fset_of_list (map keyOf prev) \<longleftrightarrow> p \<in> set prev"
  by (auto simp: fset_of_list_elem keyOf_inject)


section \<open>Auxiliary facts about stepSnake\<close>

text \<open>
  On a non-empty snake \<open>stepSnake\<close> always returns, and its three outcomes can be
  read off the cells: a collision when the wrapped candidate head is a cell of the snake
  other than a vacating tail, growth when it is the food, a move otherwise.
\<close>

lemma stepSnake_Cons:
  "stepSnake (h # t) dir food gridSize =
     (if nextHead h dir gridSize \<in> set (h # t) \<and>
         (nextHead h dir gridSize \<noteq> last (h # t) \<or> nextHead h dir gridSize = food)
      then Inr \<lparr>snake = h # t, ate = False, collision = True\<rparr>
      else Inr \<lparr>snake = (if nextHead h dir gridSize = food then nextHead h dir gridSize # h # t
                             else butlast (nextHead h dir gridSize # h # t)),
                    ate = (nextHead h dir gridSize = food), collision = False\<rparr>)"
  unfolding stepSnake_def
  by (simp only: list.case Let_def occupied_has keyOf_inject prod_eq_iff [symmetric]) auto

lemma stepSnake_returns: "\<exists>res. stepSnake (h # t) dir food gridSize = Inr res"
  by (simp add: stepSnake_Cons)

lemma stepSnake_cells:
  assumes "stepSnake (h # t) dir food gridSize = Inr res"
  shows "set (snake res) \<subseteq> insert (nextHead h dir gridSize) (set (h # t))"
proof -
  define nh where "nh = nextHead h dir gridSize"
  have bl: "set (butlast (nh # h # t)) \<subseteq> set (nh # h # t)"
    by (rule subsetI) (erule in_set_butlastD)
  have s: "set (nh # h # t) = insert nh (set (h # t))"
    by simp
  from assms have "snake res = h # t \<or> snake res = nh # h # t \<or> snake res = butlast (nh # h # t)"
    unfolding stepSnake_Cons nh_def by (auto simp del: butlast.simps split: if_splits)
  then have "set (snake res) \<subseteq> insert nh (set (h # t))"
  proof (elim disjE)
    assume "snake res = h # t"
    then show ?thesis by auto
  next
    assume "snake res = nh # h # t"
    then show ?thesis by auto
  next
    assume "snake res = butlast (nh # h # t)"
    with bl show ?thesis by (simp only: s [symmetric])
  qed
  then show ?thesis
    unfolding nh_def .
qed

lemma nextHead_inGrid:
  assumes "inGrid gridSize head"
  shows "inGrid gridSize (nextHead head dir gridSize)"
  using assms by (cases dir) (auto simp: inGrid_def nextHead_def wrapAround_def moveHead_def Let_def)

lemma stepSnake_collision_not_ate:
  assumes "stepSnake prev dir fd gridSize = Inr res" and "collision res"
  shows "\<not> ate res"
proof (cases prev)
  case Nil
  with assms(1) show ?thesis
    by (simp add: stepSnake_def)
next
  case (Cons h t)
  with assms show ?thesis
    by (auto simp: stepSnake_Cons split: if_splits)
qed

section \<open>Auxiliary facts about the food loop\<close>

text \<open>
  The loop returns at the first draw whose key is not excluded. Partial correctness
  comes from the induction rule of the partial function, termination from induction on
  the index of a draw that is accepted.
\<close>

lemma drawLoop_hit:
  "keyOf (fst (drawPoint gridSize rnd)) |\<notin>| exclude \<Longrightarrow>
   drawLoop exclude gridSize rnd = Some (drawPoint gridSize rnd)"
  by (subst drawLoop.simps) (simp add: case_prod_beta Let_def)

lemma drawLoop_miss:
  "keyOf (fst (drawPoint gridSize rnd)) |\<in>| exclude \<Longrightarrow>
   drawLoop exclude gridSize rnd = drawLoop exclude gridSize (snd (drawPoint gridSize rnd))"
  by (subst drawLoop.simps) (simp add: case_prod_beta Let_def)

lemma drawPoint_snd: "snd (drawPoint gridSize rnd) = stl (stl rnd)"
  by (simp add: drawPoint_def nextRandom_def)

lemma drawLoop_Some:
  assumes "drawLoop exclude gridSize rnd = Some y"
  shows "keyOf (fst y) |\<notin>| exclude \<and> (\<exists>n. y = drawPoint gridSize (sdrop (2 * n) rnd))"
  using assms
proof (induction rule: drawLoop.raw_induct [rotated 1, consumes 1])
  case (1 drawLoop' exclude gridSize rnd y)
  show ?case
  proof (cases "keyOf (fst (drawPoint gridSize rnd)) |\<notin>| exclude")
    case True
    with 1(2) have y: "y = drawPoint gridSize rnd"
      by (simp add: case_prod_beta Let_def)
    then have "y = drawPoint gridSize (sdrop (2 * 0) rnd)"
      by simp
    with True y show ?thesis
      by blast
  next
    case False
    with 1(2) have "drawLoop' exclude gridSize (stl (stl rnd)) = Some y"
      by (simp add: case_prod_beta Let_def drawPoint_snd)
    from 1(1) [OF this] obtain n where k: "keyOf (fst y) |\<notin>| exclude"
      and n: "y = drawPoint gridSize (sdrop (2 * n) (stl (stl rnd)))"
      by blast
    from n have "y = drawPoint gridSize (sdrop (2 * Suc n) rnd)"
      by simp
    with k show ?thesis
      by blast
  qed
qed

lemma drawLoop_terminates:
  "keyOf (fst (drawPoint gridSize (sdrop (2 * n) rnd))) |\<notin>| exclude \<Longrightarrow>
   \<exists>y. drawLoop exclude gridSize rnd = Some y"
proof (induction n arbitrary: rnd)
  case 0
  then show ?case
    by (simp add: drawLoop_hit)
next
  case (Suc n)
  show ?case
  proof (cases "keyOf (fst (drawPoint gridSize rnd)) |\<notin>| exclude")
    case True
    then show ?thesis
      by (simp add: drawLoop_hit)
  next
    case False
    from Suc.prems have "keyOf (fst (drawPoint gridSize (sdrop (2 * n) (stl (stl rnd))))) |\<notin>| exclude"
      by simp
    from Suc.IH [OF this] False show ?thesis
      by (simp add: drawLoop_miss drawPoint_snd)
  qed
qed

lemma drawPoint_range:
  assumes "0 < gridSize" and "\<forall>x \<in> sset rnd. 0 \<le> x \<and> x < 1"
  shows "inGrid gridSize (fst (drawPoint gridSize rnd))"
proof -
  have r: "0 \<le> \<lfloor>x * of_int gridSize\<rfloor> \<and> \<lfloor>x * of_int gridSize\<rfloor> < gridSize"
    if "0 \<le> x" "x < 1" for x :: real
  proof
    from that(1) assms(1) show "0 \<le> \<lfloor>x * of_int gridSize\<rfloor>"
      by simp
    from that(2) assms(1) have "x * of_int gridSize < of_int gridSize"
      by simp
    then show "\<lfloor>x * of_int gridSize\<rfloor> < gridSize"
      by (simp add: floor_less_iff)
  qed
  have "shd rnd \<in> sset rnd" "shd (stl rnd) \<in> sset rnd"
    by (simp_all add: shd_sset stl_sset)
  with assms(2) r show ?thesis
    by (simp add: inGrid_def drawPoint_def nextRandom_def)
qed

lemma sset_sdrop_subset: "sset (sdrop n s) \<subseteq> sset s"
proof (induction n arbitrary: s)
  case 0
  show ?case by simp
next
  case (Suc n)
  have "sset (sdrop n (stl s)) \<subseteq> sset (stl s)"
    by (rule Suc.IH)
  also have "sset (stl s) \<subseteq> sset s"
    by (auto intro: stl_sset)
  finally show ?case
    by simp
qed

lemma drawLoop_in_range:
  assumes "drawLoop exclude gridSize rnd = Some (p, rnd')"
    and "0 < gridSize" and "\<forall>x \<in> sset rnd. 0 \<le> x \<and> x < 1"
  shows "inGrid gridSize p \<and> keyOf p |\<notin>| exclude"
proof -
  from drawLoop_Some [OF assms(1)] obtain n where k: "keyOf p |\<notin>| exclude"
    and n: "(p, rnd') = drawPoint gridSize (sdrop (2 * n) rnd)"
    by auto
  from assms(3) have "\<forall>x \<in> sset (sdrop (2 * n) rnd). 0 \<le> x \<and> x < 1"
    using sset_sdrop_subset [of "2 * n" rnd] by blast
  from drawPoint_range [OF assms(2) this] n have "inGrid gridSize p"
    by (metis fst_conv)
  with k show ?thesis
    by simp
qed

lemma drawLoop_never:
  assumes "\<forall>n. keyOf (fst (drawPoint gridSize (sdrop (2 * n) rnd))) |\<in>| exclude"
  shows "drawLoop exclude gridSize rnd = None"
proof (cases "drawLoop exclude gridSize rnd")
  case None
  then show ?thesis .
next
  case (Some y)
  from drawLoop_Some [OF Some] assms show ?thesis
    by metis
qed

lemma sdrop_sconst: "sdrop n (sconst x) = sconst x"
  by (induction n) simp_all

lemma randPointExcluding_Inr:
  "randPointExcluding exclude gridSize rnd = Some (Inr p, rnd') \<longleftrightarrow>
   int (fcard exclude) < gridSize * gridSize \<and> drawLoop exclude gridSize rnd = Some (p, rnd')"
  by (cases p) (auto simp: randPointExcluding_def Let_def)

lemma randPointExcluding_Inl:
  "randPointExcluding exclude gridSize rnd = Some (Inl e, rnd') \<longleftrightarrow>
   int (fcard exclude) \<ge> gridSize * gridSize \<and> e = NoAvailablePoints \<and> rnd' = rnd"
  by (auto simp: randPointExcluding_def Let_def)

lemma randPointExcluding_None:
  "randPointExcluding exclude gridSize rnd = None \<longleftrightarrow>
   int (fcard exclude) < gridSize * gridSize \<and> drawLoop exclude gridSize rnd = None"
  by (auto simp: randPointExcluding_def Let_def)

text \<open>
  The cells of the grid are finitely many, \<open>gridSize * gridSize\<close> of them; the set
  of the keys of all cells but one is one short of full.
\<close>

lemma cells_product: "{p. inGrid gridSize p} = {0..<gridSize} \<times> {0..<gridSize}"
  by (auto simp: inGrid_def)

lemma finite_cells: "finite {p. inGrid gridSize p}"
  by (simp add: cells_product)

lemma card_cells: "card {p. inGrid gridSize p} = nat gridSize * nat gridSize"
  by (simp add: cells_product card_cartesian_product)

lemma inj_keyOf: "inj_on keyOf A"
  by (rule inj_onI) (simp add: keyOf_inject)

lemma all_but_one_size:
  assumes "inGrid gridSize c"
    and "fset exclude = keyOf ` ({p. inGrid gridSize p} - {c})"
  shows "int (fcard exclude) < gridSize * gridSize"
proof -
  from assms(1) have pos: "0 < gridSize"
    by (simp add: inGrid_def)
  have "fcard exclude = card (keyOf ` ({p. inGrid gridSize p} - {c}))"
    by (simp add: fcard.rep_eq assms(2))
  also have "\<dots> = card ({p. inGrid gridSize p} - {c})"
    by (rule card_image) (rule inj_keyOf)
  also have "\<dots> = nat gridSize * nat gridSize - 1"
    using assms(1) by (simp add: finite_cells card_cells)
  finally have "fcard exclude = nat gridSize * nat gridSize - 1" .
  moreover from pos have "0 < nat gridSize * nat gridSize"
    by simp
  moreover from pos have "int (nat gridSize * nat gridSize) = gridSize * gridSize"
    by simp
  ultimately show ?thesis
    by linarith
qed

lemma all_but_one_has:
  assumes "fset exclude = keyOf ` ({p. inGrid gridSize p} - {c})"
  shows "keyOf p |\<in>| exclude \<longleftrightarrow> inGrid gridSize p \<and> p \<noteq> c"
proof -
  have "keyOf p |\<in>| exclude \<longleftrightarrow> keyOf p \<in> keyOf ` ({p. inGrid gridSize p} - {c})"
    by (simp add: assms [symmetric])
  also have "\<dots> \<longleftrightarrow> p \<in> {p. inGrid gridSize p} - {c}"
    by (auto simp: keyOf_inject)
  finally show ?thesis
    by simp
qed

section \<open>Auxiliary facts about the tick interval\<close>

text \<open>
  A tick changes the interval only when the snake ate; \<open>max 40\<close> keeps it at or
  above the floor, and the factor \<open>0.95\<close> at or below its old value once that
  value is at least 40.
\<close>

lemma gameTick_interval:
  assumes "gameTick st rnd = Some (Inr st', rnd')"
    and "stepSnake (snake_st st) (directionRef st) (food_st st) (gridSizeOf st) = Inr res"
  shows "msPerTickRef st' = (if ate res then max 40 (msPerTickRef st * 0.95) else msPerTickRef st)"
  using assms stepSnake_collision_not_ate [OF assms(2)]
  by (auto simp: gameTick_def Let_def split: if_splits option.splits sum.splits prod.splits)

lemma gameTick_bounds:
  assumes "gameTick st rnd = Some (Inr st', rnd')" and "40 \<le> msPerTickRef st"
  shows "40 \<le> msPerTickRef st' \<and> msPerTickRef st' \<le> msPerTickRef st"
proof (cases "stepSnake (snake_st st) (directionRef st) (food_st st) (gridSizeOf st)")
  case (Inl e)
  with assms(1) show ?thesis
    by (simp add: gameTick_def)
next
  case (Inr res)
  from gameTick_interval [OF assms(1) Inr] assms(2) show ?thesis
    by (auto simp: max_def)
qed

lemma runTicks_bounds:
  assumes "runTicks n st rnd = Some (Inr st', rnd')" and "40 \<le> msPerTickRef st"
  shows "40 \<le> msPerTickRef st' \<and> msPerTickRef st' \<le> msPerTickRef st"
  using assms
proof (induction n arbitrary: st rnd)
  case 0
  then show ?case by simp
next
  case (Suc n)
  from Suc.prems(1) obtain st1 rnd1 where t: "gameTick st rnd = Some (Inr st1, rnd1)"
    and r: "runTicks n st1 rnd1 = Some (Inr st', rnd')"
    by (auto split: option.splits sum.splits prod.splits)
  from gameTick_bounds [OF t Suc.prems(2)] Suc.IH [OF r] show ?case
    by auto
qed

lemma reset_interval:
  assumes "reset st rnd = Some (Inr st', rnd')"
  shows "msPerTickRef st' = 200 \<and> speedLabel st' = speedLabel st"
  using assms
  by (auto simp: reset_def Let_def split: option.splits sum.splits prod.splits)

section \<open>The snake of a game has no repeated cell\<close>

text \<open>
  A snake is a sequence of distinct cells: the initial snake is, and \<open>stepSnake\<close>,
  a tick and a reset keep it so. In such a snake the tail's cell is the cell of no
  other segment.
\<close>

lemma last_notin_butlast:
  assumes "prev \<noteq> []" and "distinct prev"
  shows "last prev \<notin> set (butlast prev)"
proof -
  from assms(1) have "butlast prev @ [last prev] = prev"
    by (rule append_butlast_last_id)
  with assms(2) have "distinct (butlast prev @ [last prev])"
    by simp
  then show ?thesis
    by simp
qed

lemma stepSnake_distinct:
  assumes "distinct prev" and "stepSnake prev dir food gridSize = Inr res"
  shows "distinct (snake res)"
proof (cases prev)
  case Nil
  with assms(2) show ?thesis
    by (simp add: stepSnake_def)
next
  case (Cons h t)
  define nh where "nh = nextHead h dir gridSize"
  have ne: "prev \<noteq> []"
    by (simp add: Cons)
  from assms(2) consider
      (hit) "snake res = prev"
    | (grow) "snake res = nh # prev" "nh \<notin> set prev"
    | (move) "snake res = butlast (nh # prev)" "nh \<notin> set prev \<or> nh = last prev"
    unfolding Cons stepSnake_Cons nh_def
    by (auto simp del: butlast.simps split: if_splits)
  then show ?thesis
  proof cases
    case hit
    with assms(1) show ?thesis by simp
  next
    case grow
    with assms(1) show ?thesis by simp
  next
    case move
    have b: "butlast (nh # prev) = nh # butlast prev"
      using ne by simp
    from move(2) last_notin_butlast [OF ne assms(1)] have "nh \<notin> set (butlast prev)"
      by (auto dest: in_set_butlastD)
    moreover from assms(1) have "distinct (butlast prev)"
      by (rule distinct_butlast)
    ultimately show ?thesis
      by (simp add: move(1) b)
  qed
qed

lemma INITIAL_SNAKE_distinct: "distinct INITIAL_SNAKE"
  by (simp add: INITIAL_SNAKE_def)

lemma gameTick_distinct:
  assumes "distinct (snake_st st)" and "gameTick st rnd = Some (Inr st', rnd')"
  shows "distinct (snake_st st')"
proof (cases "stepSnake (snake_st st) (directionRef st) (food_st st) (gridSizeOf st)")
  case (Inl e)
  with assms(2) show ?thesis
    by (simp add: gameTick_def)
next
  case (Inr res)
  from stepSnake_distinct [OF assms(1) Inr] have "distinct (snake res)" .
  with assms Inr show ?thesis
    by (auto simp: gameTick_def Let_def split: if_splits option.splits sum.splits prod.splits)
qed

lemma reset_distinct:
  assumes "reset st rnd = Some (Inr st', rnd')"
  shows "distinct (snake_st st')"
  using assms INITIAL_SNAKE_distinct
  by (auto simp: reset_def Let_def split: option.splits sum.splits prod.splits)

section \<open>Concrete keys and draws\<close>

text \<open>The keys and the draws of the examples below, evaluated once.\<close>

lemma key00: "keyOf (0, 0) = ''0,0''"
  by code_simp

lemma key01: "keyOf (0, 1) = ''0,1''"
  by code_simp

lemma key02: "keyOf (0, 2) = ''0,2''"
  by code_simp

lemma key03: "keyOf (0, 3) = ''0,3''"
  by code_simp

lemma key10: "keyOf (1, 0) = ''1,0''"
  by code_simp

lemma key11: "keyOf (1, 1) = ''1,1''"
  by code_simp

lemma key55: "keyOf (5, 5) = ''5,5''"
  by code_simp

lemma draw_zero: "drawPoint 2 (sconst 0) = ((0, 0), sconst 0)"
  by (simp add: drawPoint_def nextRandom_def)

lemma draw_half: "drawPoint 2 (sconst (1 / 2)) = ((1, 1), sconst (1 / 2))"
  by (simp add: drawPoint_def nextRandom_def)

lemma draw_half_classic: "drawPoint 10 (sconst (1 / 2)) = ((5, 5), sconst (1 / 2))"
  by (simp add: drawPoint_def nextRandom_def)

lemma cells_2: "{p. inGrid 2 p} = {(0, 0), (0, 1), (1, 0), (1, 1)}"
proof -
  have "{0..<2 :: int} = {0, 1}"
    by auto
  then show ?thesis
    by (auto simp: cells_product)
qed

lemma all_but_11: "fset {|''0,0'', ''0,1'', ''1,0''|} = keyOf ` ({p. inGrid 2 p} - {(1, 1)})"
proof -
  have "{p. inGrid 2 p} - {(1, 1)} = {(0, 0), (0, 1), (1, 0)}"
    by (auto simp: cells_2)
  then show ?thesis
    by (simp add: key00 key01 key10)
qed

section \<open>Properties of stepSnake\<close>

text \<open>
  Claim C1. For every non-empty snake, direction, food point and grid size,
  \<open>stepSnake\<close> returns a result, and when that result has \<open>collision = False\<close> its
  snake is the wrapped candidate head in front of the input snake, with the last
  element dropped exactly when \<open>ate = False\<close>: the length is unchanged when
  \<open>ate = False\<close> and one greater when \<open>ate = True\<close>.
\<close>

theorem stepSnake_moves_or_grows:
  assumes "prev \<noteq> []"
  shows "\<exists>res. stepSnake prev dir food gridSize = Inr res \<and>
           (\<not> collision res \<longrightarrow>
              snake res = (if ate res then nextHead (hd prev) dir gridSize # prev
                           else butlast (nextHead (hd prev) dir gridSize # prev)) \<and>
              length (snake res) = (if ate res then length prev + 1 else length prev))"
proof -
  from assms obtain h t where prev: "prev = h # t"
    by (cases prev) auto
  show ?thesis
    unfolding prev stepSnake_def by (simp add: Let_def)
qed

text \<open>
  The two moves of the unit tests on the classic grid: the snake \<open>[[0,1],[0,0]]\<close>
  moving right towards food at \<open>[0,2]\<close> grows to length 3, and with the food at
  \<open>[9,9]\<close> it keeps length 2.
\<close>

theorem stepSnake_moves_or_grows_witness:
  "[(0, 1), (0, 0)] \<noteq> ([] :: Point list) \<and>
   stepSnake [(0, 1), (0, 0)] RIGHT (0, 2) 10 =
     Inr \<lparr>snake = [(0, 2), (0, 1), (0, 0)], ate = True, collision = False\<rparr> \<and>
   stepSnake [(0, 1), (0, 0)] RIGHT (9, 9) 10 =
     Inr \<lparr>snake = [(0, 2), (0, 1)], ate = False, collision = False\<rparr>"
proof -
  have ne: "[(0, 1), (0, 0)] \<noteq> ([] :: Point list)"
    by simp
  have grows: "stepSnake [(0, 1), (0, 0)] RIGHT (0, 2) 10 =
      Inr \<lparr>snake = [(0, 2), (0, 1), (0, 0)], ate = True, collision = False\<rparr>"
    by code_simp
  have moves: "stepSnake [(0, 1), (0, 0)] RIGHT (9, 9) 10 =
      Inr \<lparr>snake = [(0, 2), (0, 1)], ate = False, collision = False\<rparr>"
    by code_simp
  from stepSnake_moves_or_grows [OF ne, of RIGHT "(0, 2)" 10]
    stepSnake_moves_or_grows [OF ne, of RIGHT "(9, 9)" 10] ne grows moves
  show ?thesis
    by simp
qed

text \<open>
  Claim C2. For every snake of length at least 2 whose wrapped candidate head is the
  cell of the current tail and the cell of no other segment, \<open>stepSnake\<close> returns
  \<open>collision = False\<close> when the candidate head is not the food point (the tail
  vacates) and \<open>collision = True\<close> when it is the food point (the tail stays while
  the snake grows).
\<close>

theorem stepSnake_tail_cell:
  assumes "2 \<le> length prev"
    and "nextHead (hd prev) dir gridSize = last prev"
    and "nextHead (hd prev) dir gridSize \<notin> set (butlast prev)"
  shows "\<exists>res. stepSnake prev dir food gridSize = Inr res \<and>
           collision res = (nextHead (hd prev) dir gridSize = food)"
proof -
  from assms(1) obtain h t where prev: "prev = h # t"
    by (cases prev) auto
  from assms(1) have "last prev \<in> set prev"
    by (intro last_in_set) auto
  with assms(2) show ?thesis
    unfolding prev by (auto simp: stepSnake_Cons)
qed

text \<open>
  A snake that has closed a square, \<open>[[0,0],[1,0],[1,1],[0,1]]\<close>, moving right
  into its own tail at \<open>[0,1]\<close>: legal with the food elsewhere, a collision with
  the food on the tail.
\<close>

theorem stepSnake_tail_cell_witness:
  "2 \<le> length [(0, 0), (1, 0), (1, 1), (0, 1 :: int)] \<and>
   nextHead (hd [(0, 0), (1, 0), (1, 1), (0, 1)]) RIGHT 10 = last [(0, 0), (1, 0), (1, 1), (0, 1)] \<and>
   nextHead (hd [(0, 0), (1, 0), (1, 1), (0, 1)]) RIGHT 10 \<notin> set (butlast [(0, 0), (1, 0), (1, 1), (0, 1)]) \<and>
   stepSnake [(0, 0), (1, 0), (1, 1), (0, 1)] RIGHT (5, 5) 10 =
     Inr \<lparr>snake = [(0, 1), (0, 0), (1, 0), (1, 1)], ate = False, collision = False\<rparr> \<and>
   stepSnake [(0, 0), (1, 0), (1, 1), (0, 1)] RIGHT (0, 1) 10 =
     Inr \<lparr>snake = [(0, 0), (1, 0), (1, 1), (0, 1)], ate = False, collision = True\<rparr>"
proof -
  have len: "2 \<le> length [(0, 0), (1, 0), (1, 1), (0, 1 :: int)]"
    by simp
  have tl: "nextHead (hd [(0, 0), (1, 0), (1, 1), (0, 1)]) RIGHT 10 =
      last [(0, 0), (1, 0), (1, 1), (0, 1)]"
    by code_simp
  have other: "nextHead (hd [(0, 0), (1, 0), (1, 1), (0, 1)]) RIGHT 10 \<notin>
      set (butlast [(0, 0), (1, 0), (1, 1), (0, 1)])"
    by code_simp
  have vacates: "stepSnake [(0, 0), (1, 0), (1, 1), (0, 1)] RIGHT (5, 5) 10 =
      Inr \<lparr>snake = [(0, 1), (0, 0), (1, 0), (1, 1)], ate = False, collision = False\<rparr>"
    by code_simp
  have stays: "stepSnake [(0, 0), (1, 0), (1, 1), (0, 1)] RIGHT (0, 1) 10 =
      Inr \<lparr>snake = [(0, 0), (1, 0), (1, 1), (0, 1)], ate = False, collision = True\<rparr>"
    by code_simp
  from stepSnake_tail_cell [OF len tl other, of "(5, 5)"]
    stepSnake_tail_cell [OF len tl other, of "(0, 1)"] len tl other vacates stays
  show ?thesis
    by simp
qed

text \<open>
  Claim C3. For every non-empty snake (a sequence of distinct cells), direction, food
  point and grid size, if the wrapped candidate head cell is occupied by a segment
  other than the current tail (or by the tail while the candidate head equals the
  food), \<open>stepSnake\<close> returns \<open>collision = True\<close>, \<open>ate = False\<close> and the
  input snake, element for element and in the same order.
\<close>

theorem stepSnake_self_collision:
  assumes "prev \<noteq> []" and "distinct prev"
    and "nextHead (hd prev) dir gridSize \<in> set (butlast prev) \<or>
         nextHead (hd prev) dir gridSize = last prev \<and> nextHead (hd prev) dir gridSize = food"
  shows "stepSnake prev dir food gridSize = Inr \<lparr>snake = prev, ate = False, collision = True\<rparr>"
proof -
  from assms(1) obtain h t where prev: "prev = h # t"
    by (cases prev) auto
  from assms(1) have "last prev \<in> set prev"
    by (rule last_in_set)
  with assms(3) have occ: "nextHead (hd prev) dir gridSize \<in> set prev"
    by (auto dest: in_set_butlastD)
  from assms(3) last_notin_butlast [OF assms(1,2)]
  have "nextHead (hd prev) dir gridSize \<noteq> last prev \<or> nextHead (hd prev) dir gridSize = food"
    by auto
  with occ show ?thesis
    unfolding prev by (simp add: stepSnake_Cons)
qed

text \<open>
  The self-collision of the unit tests, the snake \<open>[[0,2],[1,2],[1,1],[0,1]]\<close>
  moving down into its second segment; and the closed square
  \<open>[[0,0],[1,0],[1,1],[0,1]]\<close> moving right into its tail with the food on it.
\<close>

theorem stepSnake_self_collision_witness:
  "[(0, 2), (1, 2), (1, 1), (0, 1)] \<noteq> ([] :: Point list) \<and>
   distinct ([(0, 2), (1, 2), (1, 1), (0, 1)] :: Point list) \<and>
   nextHead (hd [(0, 2), (1, 2), (1, 1), (0, 1)]) DOWN 10 \<in> set (butlast [(0, 2), (1, 2), (1, 1), (0, 1)]) \<and>
   stepSnake [(0, 2), (1, 2), (1, 1), (0, 1)] DOWN (9, 9) 10 =
     Inr \<lparr>snake = [(0, 2), (1, 2), (1, 1), (0, 1)], ate = False, collision = True\<rparr> \<and>
   distinct ([(0, 0), (1, 0), (1, 1), (0, 1)] :: Point list) \<and>
   nextHead (hd [(0, 0), (1, 0), (1, 1), (0, 1)]) RIGHT 10 = last [(0, 0), (1, 0), (1, 1), (0, 1)] \<and>
   stepSnake [(0, 0), (1, 0), (1, 1), (0, 1)] RIGHT (0, 1) 10 =
     Inr \<lparr>snake = [(0, 0), (1, 0), (1, 1), (0, 1)], ate = False, collision = True\<rparr>"
proof -
  have ne: "[(0, 2), (1, 2), (1, 1), (0, 1)] \<noteq> ([] :: Point list)"
    by simp
  have d: "distinct ([(0, 2), (1, 2), (1, 1), (0, 1)] :: Point list)"
    by simp
  have occ: "nextHead (hd [(0, 2), (1, 2), (1, 1), (0, 1)]) DOWN 10 \<in>
      set (butlast [(0, 2), (1, 2), (1, 1), (0, 1)])"
    by code_simp
  have ne': "[(0, 0), (1, 0), (1, 1), (0, 1)] \<noteq> ([] :: Point list)"
    by simp
  have d': "distinct ([(0, 0), (1, 0), (1, 1), (0, 1)] :: Point list)"
    by simp
  have tl: "nextHead (hd [(0, 0), (1, 0), (1, 1), (0, 1)]) RIGHT 10 =
      last [(0, 0), (1, 0), (1, 1), (0, 1)]"
    by code_simp
  have fd: "nextHead (hd [(0, 0), (1, 0), (1, 1), (0, 1)]) RIGHT 10 = (0, 1)"
    by code_simp
  note body = stepSnake_self_collision [OF ne d disjI1 [OF occ], of "(9, 9)"]
  note tail = stepSnake_self_collision [OF ne' d' disjI2 [OF conjI [OF tl fd]]]
  from ne d occ body d' tl tail show ?thesis
    by (intro conjI)
qed

text \<open>
  Claim C4. For every snake whose head lies on a grid edge and every direction pointing
  off that edge, \<open>stepSnake\<close> computes the new head by wrapping to the opposite edge
  of the same axis: a coordinate that would become \<open>-1\<close> becomes \<open>gridSize - 1\<close>
  and one that would reach \<open>gridSize\<close> becomes \<open>0\<close>. A collision is reported only
  when the wrapped cell is a cell of the snake, never for crossing the boundary; without
  a collision the wrapped cell is the head of the returned snake.
\<close>

theorem stepSnake_wraps:
  assumes "prev \<noteq> []" and "inGrid gridSize (hd prev)"
  shows "\<exists>res. stepSnake prev dir food gridSize = Inr res \<and>
           (dir = UP \<and> fst (hd prev) = 0 \<longrightarrow>
              nextHead (hd prev) dir gridSize = (gridSize - 1, snd (hd prev))) \<and>
           (dir = DOWN \<and> fst (hd prev) = gridSize - 1 \<longrightarrow>
              nextHead (hd prev) dir gridSize = (0, snd (hd prev))) \<and>
           (dir = LEFT \<and> snd (hd prev) = 0 \<longrightarrow>
              nextHead (hd prev) dir gridSize = (fst (hd prev), gridSize - 1)) \<and>
           (dir = RIGHT \<and> snd (hd prev) = gridSize - 1 \<longrightarrow>
              nextHead (hd prev) dir gridSize = (fst (hd prev), 0)) \<and>
           (collision res \<longrightarrow> nextHead (hd prev) dir gridSize \<in> set prev) \<and>
           (\<not> collision res \<longrightarrow> hd (snake res) = nextHead (hd prev) dir gridSize)"
proof -
  from assms(1) obtain h t where prev: "prev = h # t"
    by (cases prev) auto
  have w: "(dir = UP \<and> fst h = 0 \<longrightarrow> nextHead h dir gridSize = (gridSize - 1, snd h)) \<and>
           (dir = DOWN \<and> fst h = gridSize - 1 \<longrightarrow> nextHead h dir gridSize = (0, snd h)) \<and>
           (dir = LEFT \<and> snd h = 0 \<longrightarrow> nextHead h dir gridSize = (fst h, gridSize - 1)) \<and>
           (dir = RIGHT \<and> snd h = gridSize - 1 \<longrightarrow> nextHead h dir gridSize = (fst h, 0))"
    using assms(2) unfolding prev
    by (auto simp: inGrid_def nextHead_def wrapAround_def moveHead_def Let_def)
  have c: "\<exists>res. stepSnake (h # t) dir food gridSize = Inr res \<and>
             (collision res \<longrightarrow> nextHead h dir gridSize \<in> set (h # t)) \<and>
             (\<not> collision res \<longrightarrow> hd (snake res) = nextHead h dir gridSize)"
    by (simp add: stepSnake_Cons)
  from w c show ?thesis
    unfolding prev by simp
qed

text \<open>
  The four wraps of the unit tests on the classic grid; none is a collision.
\<close>

theorem stepSnake_wraps_witness:
  "[(0, 9), (0, 8)] \<noteq> ([] :: Point list) \<and> inGrid 10 (hd [(0, 9), (0, 8)]) \<and>
   stepSnake [(0, 9), (0, 8)] RIGHT (5, 5) 10 =
     Inr \<lparr>snake = [(0, 0), (0, 9)], ate = False, collision = False\<rparr> \<and>
   stepSnake [(5, 0), (5, 1)] LEFT (5, 5) 10 =
     Inr \<lparr>snake = [(5, 9), (5, 0)], ate = False, collision = False\<rparr> \<and>
   stepSnake [(0, 5), (1, 5)] UP (5, 5) 10 =
     Inr \<lparr>snake = [(9, 5), (0, 5)], ate = False, collision = False\<rparr> \<and>
   stepSnake [(9, 5), (8, 5)] DOWN (5, 5) 10 =
     Inr \<lparr>snake = [(0, 5), (9, 5)], ate = False, collision = False\<rparr>"
proof -
  have ne: "[(0, 9), (0, 8)] \<noteq> ([] :: Point list)"
    by simp
  have edge: "inGrid 10 (hd [(0, 9), (0, 8)])"
    by code_simp
  have right: "stepSnake [(0, 9), (0, 8)] RIGHT (5, 5) 10 =
      Inr \<lparr>snake = [(0, 0), (0, 9)], ate = False, collision = False\<rparr>"
    by code_simp
  have left: "stepSnake [(5, 0), (5, 1)] LEFT (5, 5) 10 =
      Inr \<lparr>snake = [(5, 9), (5, 0)], ate = False, collision = False\<rparr>"
    by code_simp
  have up: "stepSnake [(0, 5), (1, 5)] UP (5, 5) 10 =
      Inr \<lparr>snake = [(9, 5), (0, 5)], ate = False, collision = False\<rparr>"
    by code_simp
  have down: "stepSnake [(9, 5), (8, 5)] DOWN (5, 5) 10 =
      Inr \<lparr>snake = [(0, 5), (9, 5)], ate = False, collision = False\<rparr>"
    by code_simp
  from stepSnake_wraps [OF ne edge, of RIGHT "(5, 5)"] ne edge right left up down
  show ?thesis
    by blast
qed

text \<open>
  Claim C9. For every grid size of at least 2 and every non-empty snake all of whose
  points are cells of the grid, every point of the snake that \<open>stepSnake\<close> returns,
  with or without a collision, is a cell of the grid.
\<close>

theorem stepSnake_inGrid:
  assumes "2 \<le> gridSize" and "prev \<noteq> []" and "\<forall>p \<in> set prev. inGrid gridSize p"
  shows "\<exists>res. stepSnake prev dir food gridSize = Inr res \<and> (\<forall>p \<in> set (snake res). inGrid gridSize p)"
proof -
  from assms(2) obtain h t where prev: "prev = h # t"
    by (cases prev) auto
  from stepSnake_returns obtain res where res: "stepSnake (h # t) dir food gridSize = Inr res"
    by blast
  from assms(3) have "inGrid gridSize h"
    by (simp add: prev)
  then have "inGrid gridSize (nextHead h dir gridSize)"
    by (rule nextHead_inGrid)
  with assms(3) stepSnake_cells [OF res] have "\<forall>p \<in> set (snake res). inGrid gridSize p"
    unfolding prev by blast
  with res show ?thesis
    unfolding prev by blast
qed

theorem stepSnake_inGrid_witness:
  "(2 :: int) \<le> 10 \<and> [(0, 9), (0, 8)] \<noteq> ([] :: Point list) \<and>
   inGrid 10 (0, 9) \<and> inGrid 10 (0, 8) \<and>
   stepSnake [(0, 9), (0, 8)] RIGHT (5, 5) 10 =
     Inr \<lparr>snake = [(0, 0), (0, 9)], ate = False, collision = False\<rparr> \<and>
   inGrid 10 (0, 0)"
proof -
  have g: "(2 :: int) \<le> 10"
    by simp
  have ne: "[(0, 9), (0, 8)] \<noteq> ([] :: Point list)"
    by simp
  have c1: "inGrid 10 (0, 9)" and c2: "inGrid 10 (0, 8)"
    by code_simp+
  then have cells: "\<forall>p \<in> set [(0, 9), (0, 8)]. inGrid 10 p"
    by simp
  have step: "stepSnake [(0, 9), (0, 8)] RIGHT (5, 5) 10 =
      Inr \<lparr>snake = [(0, 0), (0, 9)], ate = False, collision = False\<rparr>"
    by code_simp
  from stepSnake_inGrid [OF g ne cells, of RIGHT "(5, 5)"] step have "inGrid 10 (0, 0)"
    by simp
  with g ne c1 c2 step show ?thesis
    by blast
qed

section \<open>Keys and cells\<close>

text \<open>
  Claim C10. For every pair of points \<open>p\<close> and \<open>q\<close> with non-negative integer
  coordinates, \<open>keyOf p = keyOf q\<close> if and only if \<open>p = q\<close>; hence for points
  \<open>pts\<close> with non-negative coordinates, a key is a member of the set of keys
  \<open>new Set(pts.map(keyOf))\<close>, the set of the occupancy test of \<open>stepSnake\<close> and
  of the exclusion test of \<open>randPointExcluding\<close>, exactly when the point is one of
  \<open>pts\<close>.
\<close>

theorem keyOf_injective_on_cells:
  assumes "0 \<le> fst p \<and> 0 \<le> snd p" and "0 \<le> fst q \<and> 0 \<le> snd q"
    and "\<forall>s \<in> set pts. 0 \<le> fst s \<and> 0 \<le> snd s"
  shows "(keyOf p = keyOf q \<longleftrightarrow> p = q) \<and>
         (keyOf p |\<in>| fset_of_list (map keyOf pts) \<longleftrightarrow> p \<in> set pts)"
proof
  show "keyOf p = keyOf q \<longleftrightarrow> p = q"
    by (rule keyOf_inject)
  show "keyOf p |\<in>| fset_of_list (map keyOf pts) \<longleftrightarrow> p \<in> set pts"
    by (rule occupied_has)
qed

text \<open>
  The points \<open>[1,12]\<close> and \<open>[11,2]\<close> print the same digits; the comma keeps
  their keys apart.
\<close>

theorem keyOf_injective_on_cells_witness:
  "(0 :: int) \<le> fst (1 :: int, 12 :: int) \<and> (0 :: int) \<le> snd (1 :: int, 12 :: int) \<and>
   (0 :: int) \<le> fst (11 :: int, 2 :: int) \<and> (0 :: int) \<le> snd (11 :: int, 2 :: int) \<and>
   keyOf (1, 12) = ''1,12'' \<and> keyOf (11, 2) = ''11,2'' \<and>
   keyOf (1, 12) \<noteq> keyOf (11, 2) \<and>
   keyOf (1, 12) |\<notin>| fset_of_list (map keyOf [(0, 2), (0, 1), (0, 0)])"
proof -
  have p: "(0 :: int) \<le> fst (1 :: int, 12 :: int) \<and> (0 :: int) \<le> snd (1 :: int, 12 :: int)"
    by simp
  have q: "(0 :: int) \<le> fst (11 :: int, 2 :: int) \<and> (0 :: int) \<le> snd (11 :: int, 2 :: int)"
    by simp
  have pts: "\<forall>s \<in> set [(0, 2), (0, 1), (0, 0 :: int)]. (0 :: int) \<le> fst s \<and> 0 \<le> snd s"
    by simp
  have k1: "keyOf (1, 12) = ''1,12''" and k2: "keyOf (11, 2) = ''11,2''"
    by code_simp+
  from keyOf_injective_on_cells [OF p q pts]
  have "keyOf (1, 12) \<noteq> keyOf (11, 2) \<and>
      keyOf (1, 12) |\<notin>| fset_of_list (map keyOf [(0, 2), (0, 1), (0, 0)])"
    by simp
  with p q k1 k2 show ?thesis
    by blast
qed

section \<open>Properties of randPointExcluding\<close>

text \<open>
  Claim C6. For every excluded set and grid size, \<open>randPointExcluding\<close> throws
  when the size of the set is at least \<open>gridSize * gridSize\<close>, before it draws any
  random number (the random source is returned as it was given); and whenever it returns
  a point, the key of that point is not in the excluded set.
\<close>

theorem randPointExcluding_full_or_free:
  "(int (fcard exclude) \<ge> gridSize * gridSize \<longrightarrow>
      randPointExcluding exclude gridSize rnd = Some (Inl NoAvailablePoints, rnd)) \<and>
   (\<forall>p rnd'. randPointExcluding exclude gridSize rnd = Some (Inr p, rnd') \<longrightarrow>
      keyOf p |\<notin>| exclude)"
proof (intro conjI impI allI)
  assume "int (fcard exclude) \<ge> gridSize * gridSize"
  then show "randPointExcluding exclude gridSize rnd = Some (Inl NoAvailablePoints, rnd)"
    by (simp add: randPointExcluding_def)
next
  fix p rnd'
  assume "randPointExcluding exclude gridSize rnd = Some (Inr p, rnd')"
  then have "drawLoop exclude gridSize rnd = Some (p, rnd')"
    by (auto simp: randPointExcluding_def Let_def split: if_splits)
  from drawLoop_Some [OF this] show "keyOf p |\<notin>| exclude"
    by simp
qed

text \<open>
  A full one-cell grid throws; on the 2 by 2 grid with \<open>[0,0]\<close> excluded, the draws
  \<open>0.5, 0.5\<close> give the free cell \<open>[1,1]\<close>.
\<close>

theorem randPointExcluding_full_or_free_witness:
  "int (fcard {|''0,0''|}) \<ge> 1 * 1 \<and>
   randPointExcluding {|''0,0''|} 1 (sconst (1 / 2)) = Some (Inl NoAvailablePoints, sconst (1 / 2)) \<and>
   randPointExcluding {|''0,0''|} 2 (sconst (1 / 2)) = Some (Inr (1, 1), sconst (1 / 2)) \<and>
   keyOf (1, 1) |\<notin>| {|''0,0''|}"
proof -
  have full: "int (fcard {|''0,0''|}) \<ge> 1 * 1"
    by (simp add: fcard_fempty fcard_finsert_if)
  have k: "keyOf (fst (drawPoint 2 (sconst (1 / 2)))) |\<notin>| {|''0,0''|}"
    by (simp add: draw_half key11)
  have ret: "randPointExcluding {|''0,0''|} 2 (sconst (1 / 2)) = Some (Inr (1, 1), sconst (1 / 2))"
    by (simp add: randPointExcluding_def fcard_fempty fcard_finsert_if drawLoop_hit [OF k] draw_half)
  from randPointExcluding_full_or_free
    [where exclude = "{|''0,0''|}" and gridSize = 1 and rnd = "sconst (1 / 2)"] full
  have thrown: "randPointExcluding {|''0,0''|} 1 (sconst (1 / 2)) =
      Some (Inl NoAvailablePoints, sconst (1 / 2))"
    by blast
  from randPointExcluding_full_or_free
    [where exclude = "{|''0,0''|}" and gridSize = 2 and rnd = "sconst (1 / 2)"] ret
  have "keyOf (1, 1) |\<notin>| {|''0,0''|}"
    by blast
  with full thrown ret show ?thesis
    by blast
qed

text \<open>
  Claim C7, as amended. Let the excluded set consist of the keys of all cells of the
  grid except one cell \<open>c\<close>, and let every random number be in \<open>[0, 1)\<close>. Then
  every run of \<open>randPointExcluding\<close> that ends returns \<open>c\<close> and never throws;
  and a run returns exactly when some draw of the sequence is \<open>c\<close>. A sequence of
  draws that never hits \<open>c\<close> keeps the loop running for ever.
\<close>

theorem randPointExcluding_single_free_cell:
  assumes "inGrid gridSize c"
    and "fset exclude = keyOf ` ({p. inGrid gridSize p} - {c})"
    and "\<forall>x \<in> sset rnd. 0 \<le> x \<and> x < 1"
  shows "(\<forall>r rnd'. randPointExcluding exclude gridSize rnd = Some (r, rnd') \<longrightarrow> r = Inr c) \<and>
         ((\<exists>rnd'. randPointExcluding exclude gridSize rnd = Some (Inr c, rnd')) \<longleftrightarrow>
          (\<exists>n. fst (drawPoint gridSize (sdrop (2 * n) rnd)) = c))"
proof -
  from assms(1) have pos: "0 < gridSize"
    by (simp add: inGrid_def)
  note room = all_but_one_size [OF assms(1,2)]
  note has = all_but_one_has [OF assms(2)]
  have only: "p = c" if "drawLoop exclude gridSize rnd = Some (p, rnd')" for p rnd'
    using drawLoop_in_range [OF that pos assms(3)] has [of p] by blast
  have first: "r = Inr c" if "randPointExcluding exclude gridSize rnd = Some (r, rnd')" for r rnd'
  proof (cases r)
    case (Inl e)
    with that room show ?thesis
      by (simp add: randPointExcluding_Inl)
  next
    case (Inr p)
    with that only show ?thesis
      by (simp add: randPointExcluding_Inr)
  qed
  have "\<exists>n. fst (drawPoint gridSize (sdrop (2 * n) rnd)) = c"
    if "randPointExcluding exclude gridSize rnd = Some (Inr c, rnd')" for rnd'
  proof -
    from that have "drawLoop exclude gridSize rnd = Some (c, rnd')"
      by (simp add: randPointExcluding_Inr)
    from drawLoop_Some [OF this] show ?thesis
      by (metis fst_conv)
  qed
  moreover have "\<exists>rnd'. randPointExcluding exclude gridSize rnd = Some (Inr c, rnd')"
    if "fst (drawPoint gridSize (sdrop (2 * n) rnd)) = c" for n
  proof -
    from that has [of c] have "keyOf (fst (drawPoint gridSize (sdrop (2 * n) rnd))) |\<notin>| exclude"
      by simp
    from drawLoop_terminates [OF this] obtain p rnd' where y: "drawLoop exclude gridSize rnd = Some (p, rnd')"
      by auto
    with only have "drawLoop exclude gridSize rnd = Some (c, rnd')"
      by simp
    with room show ?thesis
      by (auto simp: randPointExcluding_Inr)
  qed
  ultimately show ?thesis
    using first by blast
qed

text \<open>
  On the 2 by 2 grid with only \<open>[1,1]\<close> free, the draws \<open>0, 0, 0.5, 0.5\<close> first
  propose the excluded cell \<open>[0,0]\<close> and then return \<open>[1,1]\<close>.
\<close>

theorem randPointExcluding_single_free_cell_witness:
  "inGrid 2 (1, 1) \<and>
   fset {|''0,0'', ''0,1'', ''1,0''|} = keyOf ` ({p. inGrid 2 p} - {(1, 1)}) \<and>
   0 \<le> (0 :: real) \<and> (0 :: real) < 1 \<and> 0 \<le> (1 / 2 :: real) \<and> (1 / 2 :: real) < 1 \<and>
   fst (drawPoint 2 (sdrop (2 * 1) (0 ## 0 ## sconst (1 / 2)))) = (1, 1) \<and>
   randPointExcluding {|''0,0'', ''0,1'', ''1,0''|} 2 (0 ## 0 ## sconst (1 / 2)) =
     Some (Inr (1, 1), sconst (1 / 2))"
proof -
  let ?E = "{|''0,0'', ''0,1'', ''1,0''|}"
  let ?rnd = "0 ## 0 ## sconst (1 / 2 :: real)"
  have c: "inGrid 2 (1, 1)"
    by code_simp
  have unit: "\<forall>x \<in> sset ?rnd. 0 \<le> x \<and> x < 1"
    by simp
  have hit: "fst (drawPoint 2 (sdrop (2 * 1) ?rnd)) = (1, 1)"
    by (simp add: draw_half numeral_2_eq_2)
  from randPointExcluding_single_free_cell [OF c all_but_11 unit] hit
  obtain rnd' where r: "randPointExcluding ?E 2 ?rnd = Some (Inr (1, 1), rnd')"
    by blast
  have miss: "keyOf (fst (drawPoint 2 ?rnd)) |\<in>| ?E"
    by (simp add: drawPoint_def nextRandom_def key00)
  have "drawLoop ?E 2 ?rnd = drawLoop ?E 2 (sconst (1 / 2))"
    by (simp add: drawLoop_miss [OF miss] drawPoint_snd)
  also have "\<dots> = Some ((1, 1), sconst (1 / 2))"
    by (simp add: drawLoop_hit draw_half key11)
  finally have "drawLoop ?E 2 ?rnd = Some ((1, 1), sconst (1 / 2))" .
  with r have "randPointExcluding ?E 2 ?rnd = Some (Inr (1, 1), sconst (1 / 2))"
    by (simp add: randPointExcluding_Inr)
  with c all_but_11 hit show ?thesis
    by simp
qed

text \<open>
  Claim C7 as stated fails for a sequence of draws that never proposes the free cell.
  On the 2 by 2 grid with only \<open>[1,1]\<close> free, let \<open>Math.random()\<close> return
  \<open>0\<close> at every call: every draw is the excluded cell \<open>[0,0]\<close> and
  \<open>randPointExcluding\<close> never returns.
\<close>

theorem randPointExcluding_never_returns_counterexample:
  "keyOf (0, 0) |\<in>| {|''0,0'', ''0,1'', ''1,0''|} \<and>
   keyOf (0, 1) |\<in>| {|''0,0'', ''0,1'', ''1,0''|} \<and>
   keyOf (1, 0) |\<in>| {|''0,0'', ''0,1'', ''1,0''|} \<and>
   keyOf (1, 1) |\<notin>| {|''0,0'', ''0,1'', ''1,0''|} \<and>
   randPointExcluding {|''0,0'', ''0,1'', ''1,0''|} 2 (sconst 0) = None"
proof -
  have "keyOf (fst (drawPoint 2 (sdrop (2 * n) (sconst 0)))) |\<in>| {|''0,0'', ''0,1'', ''1,0''|}" for n
    by (simp add: sdrop_sconst draw_zero key00)
  then have "drawLoop {|''0,0'', ''0,1'', ''1,0''|} 2 (sconst 0) = None"
    by (intro drawLoop_never) simp
  then have "randPointExcluding {|''0,0'', ''0,1'', ''1,0''|} 2 (sconst 0) = None"
    by (simp add: randPointExcluding_None fcard_fempty fcard_finsert_if)
  then show ?thesis
    by (simp add: key00 key01 key10 key11)
qed

section \<open>Properties of the game loop driver\<close>

text \<open>
  Claim C5 fails on the code. The player selects the preset \<open>fast\<close> (base interval
  120 ms), plays until the game is over and starts a new game: \<open>reset\<close> restores the
  three-segment snake, direction \<open>RIGHT\<close>, score 0 and places food, but it stores
  \<open>SPEED_LEVELS.normal\<close>, 200 ms, while the selected preset is still \<open>fast\<close>.
\<close>

theorem reset_ignores_speedLabel:
  "reset \<lparr>boardPreset = classic, snake_st = [(3, 3), (3, 2), (3, 1), (3, 0)], food_st = (7, 7),
          gameOver = True, score = 1, speedLabel = fast, directionRef = RIGHT, running = True,
          msPerTickRef = 114\<rparr> (sconst (1 / 2)) =
     Some (Inr \<lparr>boardPreset = classic, snake_st = [(0, 2), (0, 1), (0, 0)], food_st = (5, 5),
                 gameOver = False, score = 0, speedLabel = fast, directionRef = RIGHT,
                 running = True, msPerTickRef = 200\<rparr>, sconst (1 / 2)) \<and>
   SPEED_LEVELS fast = 120"
proof -
  have k: "keyOf (fst (drawPoint 10 (sconst (1 / 2)))) |\<notin>| {|''0,2'', ''0,1'', ''0,0''|}"
    by (simp add: draw_half_classic key55)
  have "randPointExcluding {|''0,2'', ''0,1'', ''0,0''|} 10 (sconst (1 / 2)) =
      Some (Inr (5, 5), sconst (1 / 2))"
    by (simp add: randPointExcluding_def fcard_fempty fcard_finsert_if drawLoop_hit [OF k]
        draw_half_classic)
  then show ?thesis
    by (simp add: reset_def gridSizeOf_def CLASSIC_GRID_def INITIAL_SNAKE_def key00 key01 key02)
qed

text \<open>
  Claim C8, as amended. On every tick that returns, the tick interval becomes
  \<open>max 40 (interval * 0.95)\<close> when \<open>ate\<close> is true and is unchanged otherwise.
  From an interval of at least 40 ms (every preset's base interval is), the interval
  after any run of ticks is at most the interval before it and at least 40 ms;
  selecting a speed preset and resetting also leave it at least 40 ms. Selecting
  another speed preset during a game stores that preset's base interval, which may be
  larger.
\<close>

theorem tick_interval_curve:
  assumes "40 \<le> msPerTickRef st"
  shows "(\<forall>res st' rnd'. gameTick st rnd = Some (Inr st', rnd') \<and>
            stepSnake (snake_st st) (directionRef st) (food_st st) (gridSizeOf st) = Inr res \<longrightarrow>
            msPerTickRef st' =
              (if ate res then max 40 (msPerTickRef st * 0.95) else msPerTickRef st)) \<and>
         (\<forall>n st' rnd'. runTicks n st rnd = Some (Inr st', rnd') \<longrightarrow>
            40 \<le> msPerTickRef st' \<and> msPerTickRef st' \<le> msPerTickRef st) \<and>
         (\<forall>l. 40 \<le> msPerTickRef (setSpeedLabel l st) \<and>
            (l \<noteq> speedLabel st \<longrightarrow> msPerTickRef (setSpeedLabel l st) = SPEED_LEVELS l)) \<and>
         (\<forall>st' rnd'. reset st rnd = Some (Inr st', rnd') \<longrightarrow> 40 \<le> msPerTickRef st')"
proof (intro conjI allI impI)
  fix res st' rnd'
  assume "gameTick st rnd = Some (Inr st', rnd') \<and>
    stepSnake (snake_st st) (directionRef st) (food_st st) (gridSizeOf st) = Inr res"
  then show "msPerTickRef st' = (if ate res then max 40 (msPerTickRef st * 0.95) else msPerTickRef st)"
    using gameTick_interval by blast
next
  fix n st' rnd'
  assume "runTicks n st rnd = Some (Inr st', rnd')"
  from runTicks_bounds [OF this assms]
  show "40 \<le> msPerTickRef st'" and "msPerTickRef st' \<le> msPerTickRef st"
    by simp_all
next
  fix l
  show "40 \<le> msPerTickRef (setSpeedLabel l st)"
    using assms by (cases l) (simp_all add: setSpeedLabel_def)
next
  fix l
  assume "l \<noteq> speedLabel st"
  then show "msPerTickRef (setSpeedLabel l st) = SPEED_LEVELS l"
    by (simp add: setSpeedLabel_def)
next
  fix st' rnd'
  assume "reset st rnd = Some (Inr st', rnd')"
  from reset_interval [OF this] show "40 \<le> msPerTickRef st'"
    by simp
qed

text \<open>
  The first food of a game at \<open>normal\<close> speed: the tick eats at \<open>[0,3]\<close>, the
  draws \<open>0.5, 0.5\<close> place the next food at \<open>[5,5]\<close>, and the interval falls from
  200 ms to 190 ms.
\<close>

theorem tick_interval_curve_witness:
  "(40 :: real) \<le> msPerTickRef
      \<lparr>boardPreset = classic, snake_st = [(0, 2), (0, 1), (0, 0)], food_st = (0, 3),
       gameOver = False, score = 0, speedLabel = normal, directionRef = RIGHT, running = True,
       msPerTickRef = 200\<rparr> \<and>
   gameTick
      \<lparr>boardPreset = classic, snake_st = [(0, 2), (0, 1), (0, 0)], food_st = (0, 3),
       gameOver = False, score = 0, speedLabel = normal, directionRef = RIGHT, running = True,
       msPerTickRef = 200\<rparr> (sconst (1 / 2)) =
     Some (Inr \<lparr>boardPreset = classic, snake_st = [(0, 3), (0, 2), (0, 1), (0, 0)],
                 food_st = (5, 5), gameOver = False, score = 1, speedLabel = normal,
                 directionRef = RIGHT, running = True, msPerTickRef = 190\<rparr>, sconst (1 / 2)) \<and>
   max 40 (200 * 0.95) = (190 :: real)"
proof -
  let ?st = "\<lparr>boardPreset = classic, snake_st = [(0, 2), (0, 1), (0, 0)], food_st = (0, 3),
       gameOver = False, score = 0, speedLabel = normal, directionRef = RIGHT, running = True,
       msPerTickRef = 200\<rparr>"
  have floor: "40 \<le> msPerTickRef ?st"
    by simp
  have step: "stepSnake [(0, 2), (0, 1), (0, 0)] RIGHT (0, 3) 10 =
      Inr \<lparr>snake = [(0, 3), (0, 2), (0, 1), (0, 0)], ate = True, collision = False\<rparr>"
    by code_simp
  have k: "keyOf (fst (drawPoint 10 (sconst (1 / 2)))) |\<notin>| {|''0,3'', ''0,2'', ''0,1'', ''0,0''|}"
    by (simp add: draw_half_classic key55)
  have fd: "randPointExcluding {|''0,3'', ''0,2'', ''0,1'', ''0,0''|} 10 (sconst (1 / 2)) =
      Some (Inr (5, 5), sconst (1 / 2))"
    by (simp add: randPointExcluding_def fcard_fempty fcard_finsert_if drawLoop_hit [OF k]
        draw_half_classic)
  have tick: "gameTick ?st (sconst (1 / 2)) =
      Some (Inr \<lparr>boardPreset = classic, snake_st = [(0, 3), (0, 2), (0, 1), (0, 0)],
                  food_st = (5, 5), gameOver = False, score = 1, speedLabel = normal,
                  directionRef = RIGHT, running = True, msPerTickRef = 190\<rparr>, sconst (1 / 2))"
    by (simp add: gameTick_def gridSizeOf_def CLASSIC_GRID_def step fd key00 key01 key02 key03)
  have step': "stepSnake (snake_st ?st) (directionRef ?st) (food_st ?st) (gridSizeOf ?st) =
      Inr \<lparr>snake = [(0, 3), (0, 2), (0, 1), (0, 0)], ate = True, collision = False\<rparr>"
    by (simp add: gridSizeOf_def CLASSIC_GRID_def step)
  from tick_interval_curve [OF floor, of "sconst (1 / 2)", THEN conjunct1, rule_format,
      OF conjI [OF tick step']]
  have m: "max 40 (200 * 0.95) = (190 :: real)"
    by simp
  from floor tick m show ?thesis
    by (intro conjI)
qed

text \<open>
  Claim C8 as stated fails within a single game: in a running game at the preset
  \<open>fast\<close> (120 ms), selecting \<open>slow\<close> stores 300 ms; the game is not reset and
  not over, and its tick interval has increased.
\<close>

theorem setSpeedLabel_raises_interval_counterexample:
  "\<not> gameOver (setSpeedLabel slow
       \<lparr>boardPreset = classic, snake_st = [(0, 2), (0, 1), (0, 0)], food_st = (5, 5),
        gameOver = False, score = 0, speedLabel = fast, directionRef = RIGHT, running = True,
        msPerTickRef = 120\<rparr>) \<and>
   msPerTickRef
     \<lparr>boardPreset = classic, snake_st = [(0, 2), (0, 1), (0, 0)], food_st = (5, 5),
      gameOver = False, score = 0, speedLabel = fast, directionRef = RIGHT, running = True,
      msPerTickRef = 120\<rparr> = 120 \<and>
   msPerTickRef (setSpeedLabel slow
       \<lparr>boardPreset = classic, snake_st = [(0, 2), (0, 1), (0, 0)], food_st = (5, 5),
        gameOver = False, score = 0, speedLabel = fast, directionRef = RIGHT, running = True,
        msPerTickRef = 120\<rparr>) = 300"
  by (simp add: setSpeedLabel_def)

end
